theory Spec2Isabelle
  imports Complex_Main "HOL-Library.Char_ord" "HOL-Library.List_Lexorder" "HOL-Library.Multiset"
begin

section \<open>Data model\<close>

text \<open>
  A pool record of the catalog, as \<open>loadPools\<close> returns it. The coordinates
  \<open>lat\<close> and \<open>lng\<close> are floating-point numbers that the program only hands on
  to the map widget; they are left out. An optional field is \<open>None\<close> when the
  JSON record has no such property.
\<close>

record pool =
  pool_id :: string
  pool_name :: string
  suburb :: "string option"
  stamp :: "string option"

text \<open>
  The values a \<open>done\<close> field read from storage can hold: a JSON value, or
  \<open>undefined\<close> when the field is missing. An object or array is \<open>JObject\<close>: all
  the program asks of a \<open>done\<close> value is whether it is truthy and whether it is
  \<open>=== true\<close>, and every object is the first and not the second.
\<close>

datatype jsval = JUndefined | JNull | JBool bool | JNum real | JStr string | JObject

fun truthy :: "jsval \<Rightarrow> bool" where
  "truthy JUndefined = False"
| "truthy JNull = False"
| "truthy (JBool b) = b"
| "truthy (JNum n) = (n \<noteq> 0)"
| "truthy (JStr s) = (s \<noteq> [])"
| "truthy JObject = True"

text \<open>
  One value of the visited object, \<open>{ done: true, date: "16/12/2025" }\<close> in the
  source's own comment; the fields are named \<open>ent_done\<close> and \<open>ent_date\<close> below.
  Nothing forces \<open>done\<close> to be \<open>true\<close>: the object is whatever storage
  held. (A stored value that is not an object has no \<open>done\<close> and reads, in every
  place the program looks, like an entry whose \<open>done\<close> is \<open>undefined\<close>.)
  \<open>date\<close> is a string, as in every entry the program writes: with a date that
  is not a string the comparator of the stamps view raises or not according to the
  order in which the platform's sort compares, which the language leaves open.
\<close>

record entry =
  ent_done :: jsval
  ent_date :: string

text \<open>
  The visited object is an ordinary JavaScript object: its own properties, keyed by
  pool id, and its prototype. The prototype is \<open>Object.prototype\<close> (\<open>None\<close>)
  until an assignment to the key \<open>__proto__\<close> replaces it; the only such
  assignment of the program stores \<open>{ done: true, date: today }\<close>, and \<open>proto\<close>
  keeps its date.
\<close>

record visited_obj =
  own :: "string \<Rightarrow> entry option"
  proto :: "string option"

text \<open>
  What \<open>visited[k]\<close> yields: an own property; for \<open>__proto__\<close> the prototype
  (the accessor of \<open>Object.prototype\<close>); a property inherited from a prototype
  entry (\<open>done\<close>, which is \<open>true\<close>, and \<open>date\<close>); a method inherited from
  \<open>Object.prototype\<close>; or \<open>undefined\<close>.
\<close>

datatype looked =
    NoValue
  | AnEntry entry
  | ObjectPrototype
  | PrototypeMethod
  | InheritedDone
  | InheritedDate string

definition object_prototype_methods :: "string list" where
  "object_prototype_methods =
     [''constructor'', ''hasOwnProperty'', ''isPrototypeOf'', ''propertyIsEnumerable'',
      ''toLocaleString'', ''toString'', ''valueOf'', ''__defineGetter__'',
      ''__defineSetter__'', ''__lookupGetter__'', ''__lookupSetter__'']"

definition js_get :: "visited_obj \<Rightarrow> string \<Rightarrow> looked" where
  "js_get v k =
     (case own v k of
        Some e \<Rightarrow> AnEntry e
      | None \<Rightarrow>
          (case proto v of
             None \<Rightarrow>
               if k = ''__proto__'' then ObjectPrototype
               else if k \<in> set object_prototype_methods then PrototypeMethod
               else NoValue
           | Some d \<Rightarrow>
               if k = ''__proto__'' then AnEntry \<lparr>ent_done = JBool True, ent_date = d\<rparr>
               else if k = ''done'' then InheritedDone
               else if k = ''date'' then InheritedDate d
               else if k \<in> set object_prototype_methods then PrototypeMethod
               else NoValue))"

text \<open>
  \<open>x.done\<close> for a value \<open>x\<close> that \<open>visited[k]\<close> yielded: an entry has the
  field; \<open>Object.prototype\<close>, a function, \<open>true\<close> and a string have no such
  property.
\<close>

definition done_prop :: "looked \<Rightarrow> jsval" where
  "done_prop x = (case x of AnEntry e \<Rightarrow> ent_done e | _ \<Rightarrow> JUndefined)"

text \<open>\<open>x.date\<close>, likewise: \<open>None\<close> is \<open>undefined\<close>.\<close>

definition date_prop :: "looked \<Rightarrow> string option" where
  "date_prop x = (case x of AnEntry e \<Rightarrow> Some (ent_date e) | _ \<Rightarrow> None)"


text \<open>\<open>visited[k]?.done\<close>.\<close>

definition done_test :: "visited_obj \<Rightarrow> string \<Rightarrow> jsval" where
  "done_test v k = (case js_get v k of NoValue \<Rightarrow> JUndefined | x \<Rightarrow> done_prop x)"

text \<open>
  \<open>visited[k] = { done: true, date: today }\<close>: an own property is written, unless
  the key is \<open>__proto__\<close> and the object has no own property of that name; then
  the setter of \<open>Object.prototype\<close> runs and makes the new object the prototype.
\<close>

definition js_assign_visit :: "visited_obj \<Rightarrow> string \<Rightarrow> string \<Rightarrow> visited_obj" where
  "js_assign_visit v k today =
     (if k = ''__proto__'' \<and> own v k = None then v\<lparr>proto := Some today\<rparr>
      else v\<lparr>own := (own v)(k \<mapsto> \<lparr>ent_done = JBool True, ent_date = today\<rparr>)\<rparr>)"

text \<open>\<open>delete visited[k]\<close> removes an own property and nothing else.\<close>

definition js_delete :: "visited_obj \<Rightarrow> string \<Rightarrow> visited_obj" where
  "js_delete v k = v\<lparr>own := (own v)(k := None)\<rparr>"

datatype error = TypeError | StorageError

section \<open>Date helper\<close>

text \<open>
  The regular expression \<open>/^\d{4}-\d{2}-\d{2}$/\<close>, read left to right over the
  whole string. Each matcher consumes a prefix and returns the rest.
\<close>

definition is_digit :: "char \<Rightarrow> bool" where
  "is_digit c = (c \<in> set ''0123456789'')"

fun digit1 :: "string \<Rightarrow> string option" where
  "digit1 [] = None"
| "digit1 (c # cs) = (if is_digit c then Some cs else None)"

fun lit :: "char \<Rightarrow> string \<Rightarrow> string option" where
  "lit c [] = None"
| "lit c (x # xs) = (if x = c then Some xs else None)"

definition digits2 :: "string \<Rightarrow> string option" where
  "digits2 s = Option.bind (digit1 s) digit1"

definition digits4 :: "string \<Rightarrow> string option" where
  "digits4 s = Option.bind (digits2 s) digits2"

definition iso_regex_test :: "string \<Rightarrow> bool" where
  "iso_regex_test s =
     (Option.bind (Option.bind (Option.bind (Option.bind (digits4 s) (lit CHR ''-''))
        digits2) (lit CHR ''-'')) digits2 = Some [])"

text \<open>\<open>d.split('-')\<close>: the pieces between the separators, at least one piece.\<close>

fun split_on :: "char \<Rightarrow> string \<Rightarrow> string list" where
  "split_on c [] = [[]]"
| "split_on c (x # xs) =
     (if x = c then [] # split_on c xs
      else (case split_on c xs of
              [] \<Rightarrow> [[x]]
            | w # ws \<Rightarrow> (x # w) # ws))"

text \<open>
  An element of a destructured array inside a template literal: a position past the
  end is \<open>undefined\<close> and prints as that word.
\<close>

definition template_nth :: "string list \<Rightarrow> nat \<Rightarrow> string" where
  "template_nth xs i = (if i < length xs then xs ! i else ''undefined'')"

text \<open>
  \<open>formatDateAU(d)\<close>. The argument is a string, or absent (\<open>undefined\<close> or
  \<open>null\<close>): \<open>None\<close>. \<open>!d\<close> holds for an absent argument and for the empty string.
\<close>

definition formatDateAU :: "string option \<Rightarrow> string" where
  "formatDateAU d =
     (case d of
        None \<Rightarrow> []
      | Some s \<Rightarrow>
          if s = [] then []
          else if iso_regex_test s then
            (let parts = split_on CHR ''-'' s;
                 y = template_nth parts 0;
                 m = template_nth parts 1;
                 day = template_nth parts 2
             in day @ ''/'' @ m @ ''/'' @ y)
          else s)"

section \<open>Application state and its environment\<close>

text \<open>
  What the program leaves in the page and in storage is recorded as a trace of the
  calls it makes, in the order it makes them: the two storage writers of
  \<open>storage.js\<close> with their argument, and the updates of the document.
\<close>

datatype chip = Visited string | MarkAsVisited

record row =
  row_name :: string
  row_data_id :: string
  row_stamped :: bool
  row_chip :: chip

record card =
  card_title :: string
  card_pop :: bool
  card_src :: string
  card_label :: string
  card_date :: string

datatype event =
    WriteVisited visited_obj
  | WriteStampsPage int
  | PoolListNoPools
  | PoolListCleared
  | PoolListRow row
  | CountBadge int nat
  | GridCleared
  | GridCard card

text \<open>
  The module's variables \<open>pools\<close>, \<open>visited\<close>, \<open>selectedIndex\<close> and
  \<open>currentStampsPage\<close>, and the trace. The two indices are JavaScript numbers:
  integers here, of either sign.
\<close>

record app =
  pools :: "pool list"
  visited :: visited_obj
  selectedIndex :: int
  currentStampsPage :: int
  trace :: "event list"

text \<open>
  What the program takes from outside its own files: the platform's
  \<open>String.prototype.localeCompare\<close>, \<open>countVisited\<close> of \<open>storage.js\<close> (a file
  that is not among the sources), and whether the page has the element
  \<open>passportGrid\<close>.
\<close>

record host =
  localeCompare :: "string \<Rightarrow> string \<Rightarrow> int"
  countVisited :: "visited_obj \<Rightarrow> int"
  passportGrid :: bool

definition emit :: "event \<Rightarrow> app \<Rightarrow> app" where
  "emit e s = s\<lparr>trace := trace s @ [e]\<rparr>"

text \<open>\<open>xs[i]\<close>: \<open>undefined\<close> (here \<open>None\<close>) outside the array.\<close>

definition js_index :: "'a list \<Rightarrow> int \<Rightarrow> 'a option" where
  "js_index xs i = (if 0 \<le> i \<and> i < int (length xs) then Some (xs ! nat i) else None)"

text \<open>\<open>xs.slice(start, end)\<close>: a negative position counts from the end.\<close>

definition js_slice :: "'a list \<Rightarrow> int \<Rightarrow> int \<Rightarrow> 'a list" where
  "js_slice xs start fin =
     (let len = int (length xs);
          k = (if start < 0 then max (len + start) 0 else min start len);
          final = (if fin < 0 then max (len + fin) 0 else min fin len)
      in take (nat (final - k)) (drop (nat k) xs))"

text \<open>\<open>a || b\<close> on an optional string: \<open>b\<close> when \<open>a\<close> is absent or empty.\<close>

definition or_else :: "string option \<Rightarrow> string \<Rightarrow> string" where
  "or_else a b = (case a of None \<Rightarrow> b | Some x \<Rightarrow> if x = [] then b else x)"

section \<open>Header count and list view\<close>

definition updateCount :: "host \<Rightarrow> app \<Rightarrow> app" where
  "updateCount h s = emit (CountBadge (countVisited h (visited s)) (length (pools s))) s"

text \<open>
  \<open>renderList()\<close>. With \<open>selectedIndex\<close> outside the array, \<open>p\<close> is
  \<open>undefined\<close> and reading \<open>p.id\<close> raises a TypeError, after the list was
  emptied. The result pairs the exception, if any, with the state reached.
\<close>

definition renderList :: "host \<Rightarrow> app \<Rightarrow> error option \<times> app" where
  "renderList h s =
     (if pools s = [] then (None, emit PoolListNoPools s)
      else
        let s1 = emit PoolListCleared s in
        case js_index (pools s1) (selectedIndex s1) of
          None \<Rightarrow> (Some TypeError, s1)
        | Some p \<Rightarrow>
            let v = js_get (visited s1) (pool_id p);
                stamped = ((case v of NoValue \<Rightarrow> JUndefined | x \<Rightarrow> done_prop x) = JBool True);
                stampDate = (if stamped then date_prop v else None);
                r = \<lparr>row_name = pool_name p, row_data_id = pool_id p,
                     row_stamped = stamped,
                     row_chip = (if stamped then Visited (formatDateAU stampDate)
                                 else MarkAsVisited)\<rparr>
            in (None, updateCount h (emit (PoolListRow r) s1)))"

text \<open>
  \<open>openInNativeMaps()\<close>: the pool whose coordinates are opened, \<open>None\<close> when the
  function returns without opening anything.
\<close>

definition openInNativeMaps :: "app \<Rightarrow> pool option" where
  "openInNativeMaps s =
     (case js_index (pools s) (selectedIndex s) of
        Some p \<Rightarrow> Some p
      | None \<Rightarrow> js_index (pools s) 0)"

section \<open>Stamps view\<close>

definition getStampSrc :: "pool \<Rightarrow> string" where
  "getStampSrc p = or_else (stamp p) (''stamps/'' @ pool_id p @ ''.png'')"

text \<open>
  The comparator of the sort, \<open>visited[a.id].date.localeCompare(visited[b.id].date)\<close>.
  Reading \<open>.date\<close> of \<open>undefined\<close> raises a TypeError, and so does calling
  \<open>localeCompare\<close> on a date that is \<open>undefined\<close>; as the argument, an
  \<open>undefined\<close> date is compared as the string \<open>undefined\<close>.
\<close>

definition compare_dates :: "host \<Rightarrow> visited_obj \<Rightarrow> pool \<Rightarrow> pool \<Rightarrow> error + int" where
  "compare_dates h m a b =
     (case js_get m (pool_id a) of
        NoValue \<Rightarrow> Inl TypeError
      | x \<Rightarrow>
          (case date_prop x of
             None \<Rightarrow> Inl TypeError
           | Some da \<Rightarrow>
               (case js_get m (pool_id b) of
                  NoValue \<Rightarrow> Inl TypeError
                | y \<Rightarrow>
                    (case date_prop y of
                       None \<Rightarrow> Inr (localeCompare h da ''undefined'')
                     | Some db \<Rightarrow> Inr (localeCompare h da db)))))"

text \<open>
  \<open>Array.prototype.sort(compare)\<close> is a stable sort: with a comparator that orders
  the elements consistently its result is fixed by the language, and is the one
  insertion from the right computes. An exception of the comparator ends the sort.
\<close>

fun insert_by :: "('a \<Rightarrow> 'a \<Rightarrow> error + int) \<Rightarrow> 'a \<Rightarrow> 'a list \<Rightarrow> error + 'a list" where
  "insert_by cmp x [] = Inr [x]"
| "insert_by cmp x (y # ys) =
     (case cmp x y of
        Inl e \<Rightarrow> Inl e
      | Inr c \<Rightarrow>
          if c \<le> 0 then Inr (x # y # ys)
          else (case insert_by cmp x ys of
                  Inl e \<Rightarrow> Inl e
                | Inr zs \<Rightarrow> Inr (y # zs)))"

fun js_sort :: "('a \<Rightarrow> 'a \<Rightarrow> error + int) \<Rightarrow> 'a list \<Rightarrow> error + 'a list" where
  "js_sort cmp [] = Inr []"
| "js_sort cmp (x # xs) =
     (case js_sort cmp xs of
        Inl e \<Rightarrow> Inl e
      | Inr ys \<Rightarrow> insert_by cmp x ys)"

definition visitedPools :: "host \<Rightarrow> app \<Rightarrow> error + pool list" where
  "visitedPools h s =
     js_sort (compare_dates h (visited s))
       (filter (\<lambda>p. truthy (done_test (visited s) (pool_id p))) (pools s))"

text \<open>\<open>Math.max(1, Math.ceil(n / stampsPerPage))\<close>.\<close>

definition stampsPerPage :: int where
  "stampsPerPage = 3"

definition totalPages :: "nat \<Rightarrow> int" where
  "totalPages n = max 1 \<lceil>real n / real_of_int stampsPerPage\<rceil>"

text \<open>
  The body of \<open>pagePools.forEach\<close>: the card of one pool. \<open>v.date\<close> of
  \<open>undefined\<close> raises a TypeError.
\<close>

definition stamp_card :: "visited_obj \<Rightarrow> string option \<Rightarrow> pool \<Rightarrow> error + card" where
  "stamp_card m popId p =
     (case js_get m (pool_id p) of
        NoValue \<Rightarrow> Inl TypeError
      | v \<Rightarrow>
          Inr \<lparr>card_title = pool_name p, card_pop = (popId = Some (pool_id p)),
               card_src = getStampSrc p, card_label = or_else (suburb p) ''Stamped'',
               card_date = formatDateAU (date_prop v)\<rparr>)"

text \<open>\<open>pagePools.forEach(...)\<close>: one card appended for each pool, in order.\<close>

fun append_cards :: "string option \<Rightarrow> pool list \<Rightarrow> app \<Rightarrow> error option \<times> app" where
  "append_cards popId [] s = (None, s)"
| "append_cards popId (p # ps) s =
     (case stamp_card (visited s) popId p of
        Inl e \<Rightarrow> (Some e, s)
      | Inr c \<Rightarrow> append_cards popId ps (emit (GridCard c) s))"

text \<open>
  \<open>renderStamps(popId)\<close>: nothing happens when the page has no grid; otherwise the
  page index is lowered to the last page, written to storage, and that page's slice
  of the sorted list is drawn.
\<close>

definition renderStamps :: "host \<Rightarrow> string option \<Rightarrow> app \<Rightarrow> error option \<times> app" where
  "renderStamps h popId s =
     (if \<not> passportGrid h then (None, s)
      else
        case visitedPools h s of
          Inl e \<Rightarrow> (Some e, s)
        | Inr vp \<Rightarrow>
            let pages = totalPages (length vp);
                s1 = s\<lparr>currentStampsPage := min (currentStampsPage s) (pages - 1)\<rparr>;
                s2 = emit (WriteStampsPage (currentStampsPage s1)) s1;
                pagePools = js_slice vp (currentStampsPage s2 * stampsPerPage)
                              (currentStampsPage s2 * stampsPerPage + stampsPerPage)
            in append_cards popId pagePools (emit GridCleared s2))"

section \<open>Toggling the visited state\<close>

text \<open>
  \<open>toggleStamp(poolId, animate)\<close>. \<open>today\<close> is what the \<open>en-AU\<close> date formatter
  returned for the current day. An exception of \<open>renderList\<close> leaves the function
  before \<open>renderStamps\<close> is called; the object has been changed and written by
  then.
\<close>

definition toggleStamp :: "host \<Rightarrow> string \<Rightarrow> string \<Rightarrow> bool \<Rightarrow> app \<Rightarrow> error option \<times> app" where
  "toggleStamp h today poolId animate s =
     (let s1 = (if truthy (done_test (visited s) poolId)
                then s\<lparr>visited := js_delete (visited s) poolId\<rparr>
                else s\<lparr>visited := js_assign_visit (visited s) poolId today\<rparr>);
          s2 = emit (WriteVisited (visited s1)) s1
      in case renderList h s2 of
           (Some e, s3) \<Rightarrow> (Some e, s3)
         | (None, s3) \<Rightarrow> renderStamps h (if animate then Some poolId else None) s3)"

text \<open>
  A run of clicks on stamp chips: each click calls \<open>toggleStamp(id, true)\<close> with the
  day's date, and an exception ends that click only.
\<close>

fun clicks :: "host \<Rightarrow> (string \<times> string) list \<Rightarrow> app \<Rightarrow> app" where
  "clicks h [] s = s"
| "clicks h ((today, poolId) # cs) s = clicks h cs (snd (toggleStamp h today poolId True s))"

section \<open>Overview page\<close>



section \<open>Profile reset\<close>

text \<open>
  The browser as the reset handler sees it: the content of \<open>localStorage\<close>, and
  the calls that remove a key, alert the user or reload the page, in order.
  \<open>throws k\<close> says that \<open>localStorage.removeItem(k)\<close> raises (storage is not
  available); the result of \<open>confirm(...)\<close> is the handler's argument \<open>ok\<close>.
\<close>

datatype ui_event = RemoveItem string | Alert string | Reload

record browser =
  localStorage :: "string \<Rightarrow> string option"
  ui :: "ui_event list"

text \<open>
  The names of the storage keys, \<open>LS_KEYS\<close> of \<open>storage.js\<close>; that file is not
  among the sources, so the handler of \<open>overview.js\<close> takes them as a parameter.
\<close>

record ls_keys =
  VISITED :: string
  SELECTION :: string
  STAMPS_PAGE :: string

text \<open>The statements of the \<open>try\<close> block, up to the first that raises.\<close>

fun removeItems :: "(string \<Rightarrow> bool) \<Rightarrow> string list \<Rightarrow> browser \<Rightarrow> error option \<times> browser" where
  "removeItems throws [] b = (None, b)"
| "removeItems throws (k # ks) b =
     (if throws k then (Some StorageError, b)
      else removeItems throws ks
             (b\<lparr>localStorage := (localStorage b)(k := None), ui := ui b @ [RemoveItem k]\<rparr>))"

text \<open>The click handler of the button \<open>resetProfileBtn\<close> in \<open>overview.js\<close>.\<close>

definition resetBtn_click :: "ls_keys \<Rightarrow> (string \<Rightarrow> bool) \<Rightarrow> bool \<Rightarrow> browser \<Rightarrow> browser" where
  "resetBtn_click LS_KEYS throws ok b =
     (if \<not> ok then b
      else
        case removeItems throws
               [''passportOwnerName'', VISITED LS_KEYS, SELECTION LS_KEYS, STAMPS_PAGE LS_KEYS] b of
          (Some e, b1) \<Rightarrow> b1\<lparr>ui := ui b1 @ [Alert ''Could not reset (storage not available).'']\<rparr>
        | (None, b1) \<Rightarrow> b1\<lparr>ui := ui b1 @ [Reload]\<rparr>)"

section \<open>Notions used to state the properties\<close>

text \<open>
  The shape \<open>YYYY-MM-DD\<close> by position: ten characters, hyphens at positions 4 and
  7, decimal digits elsewhere.
\<close>

definition iso_shape :: "string \<Rightarrow> bool" where
  "iso_shape s =
     (length s = 10 \<and> s ! 4 = CHR ''-'' \<and> s ! 7 = CHR ''-'' \<and>
      list_all is_digit (take 4 s) \<and> list_all is_digit (take 2 (drop 5 s)) \<and>
      list_all is_digit (drop 8 s))"

text \<open>
  The entry that \<open>visited[k]\<close> yields, when it yields one: the pool with id \<open>k\<close>
  has a visited entry.
\<close>

definition get_entry :: "visited_obj \<Rightarrow> string \<Rightarrow> entry option" where
  "get_entry v k = (case js_get v k of AnEntry e \<Rightarrow> Some e | _ \<Rightarrow> None)"

text \<open>
  A string over the characters of a stored date: digits, \<open>/\<close> (the display form
  \<open>DD/MM/YYYY\<close>) and \<open>-\<close> (the legacy form \<open>YYYY-MM-DD\<close>).
\<close>

definition date_char :: "char \<Rightarrow> bool" where
  "date_char c = (is_digit c \<or> c = CHR ''/'' \<or> c = CHR ''-'')"

definition date_string :: "string \<Rightarrow> bool" where
  "date_string s = list_all date_char s"

text \<open>
  The data model's invariant of the visited object: every entry has \<open>done\<close> true
  and a date string as its date.
\<close>

definition well_formed :: "visited_obj \<Rightarrow> bool" where
  "well_formed v =
     ((\<forall>k e. own v k = Some e \<longrightarrow> ent_done e = JBool True \<and> date_string (ent_date e)) \<and>
      (\<forall>d. proto v = Some d \<longrightarrow> date_string d))"

text \<open>
  What is asked of the platform's collation: on two date strings,
  \<open>localeCompare\<close> orders as the lexicographic comparison by character code
  does. (A collation orders the punctuation \<open>-\<close> and \<open>/\<close> before the digits and
  the digits by value, as their codes do; on letters it does not follow the
  codes, and nothing is asked there.)
\<close>

definition collates_dates :: "host \<Rightarrow> bool" where
  "collates_dates h =
     (\<forall>a b. date_string a \<and> date_string b \<longrightarrow> (localeCompare h a b \<le> 0) = (a \<le> b))"

text \<open>
  Ascending order of two pools by their stored dates, compared as strings
  (lexicographically, by character code); both pools have an entry.
\<close>

definition date_le :: "visited_obj \<Rightarrow> pool \<Rightarrow> pool \<Rightarrow> bool" where
  "date_le m p q =
     (case get_entry m (pool_id p) of
        None \<Rightarrow> False
      | Some e \<Rightarrow>
          (case get_entry m (pool_id q) of
             None \<Rightarrow> False
           | Some f \<Rightarrow> ent_date e \<le> ent_date f))"

text \<open>The stored date of a pool, as a sorting key (empty when there is no entry).\<close>

definition date_key :: "visited_obj \<Rightarrow> pool \<Rightarrow> string" where
  "date_key m p = (case get_entry m (pool_id p) of None \<Rightarrow> [] | Some e \<Rightarrow> ent_date e)"

text \<open>Every own entry of the object has \<open>done\<close> true.\<close>

definition all_done :: "visited_obj \<Rightarrow> bool" where
  "all_done v = (\<forall>k e. own v k = Some e \<longrightarrow> ent_done e = JBool True)"

text \<open>The visited object after a toggle of one id on the day \<open>today\<close>.\<close>

definition toggled :: "visited_obj \<Rightarrow> string \<Rightarrow> string \<Rightarrow> visited_obj" where
  "toggled m today poolId =
     (if truthy (done_test m poolId) then js_delete m poolId
      else js_assign_visit m poolId today)"

fun is_write_visited :: "event \<Rightarrow> bool" where
  "is_write_visited (WriteVisited m) = True"
| "is_write_visited e = False"

text \<open>The four keys the reset handler removes, in the order it removes them.\<close>

definition reset_keys :: "ls_keys \<Rightarrow> string list" where
  "reset_keys K = [''passportOwnerName'', VISITED K, SELECTION K, STAMPS_PAGE K]"

text \<open>The stamps-page indices a trace wrote to storage, oldest first.\<close>

fun pages_written :: "event list \<Rightarrow> int list" where
  "pages_written [] = []"
| "pages_written (e # es) =
     (case e of WriteStampsPage n \<Rightarrow> n # pages_written es | _ \<Rightarrow> pages_written es)"

text \<open>
  The cards in the grid after a trace, given the cards that were in it before:
  \<open>grid.innerHTML = ''\<close> empties the grid, \<open>appendChild\<close> adds a card at the end.
\<close>

fun grid_after :: "card list \<Rightarrow> event list \<Rightarrow> card list" where
  "grid_after g [] = g"
| "grid_after g (e # es) =
     (case e of
        GridCleared \<Rightarrow> grid_after [] es
      | GridCard c \<Rightarrow> grid_after (g @ [c]) es
      | _ \<Rightarrow> grid_after g es)"

text \<open>
  An example of a collation that is not the comparison by character code: letters
  in alphabetical order with the lower-case letter before the upper-case one
  (\<open>a < B\<close>), every other character by its code.
\<close>

definition collation_weight :: "char \<Rightarrow> nat" where
  "collation_weight c =
     (let n = of_char c in
      if 97 \<le> n \<and> n \<le> 122 then 2 * (n - 32)
      else if 65 \<le> n \<and> n \<le> 90 then 2 * n + 1
      else 2 * n)"

fun example_collation :: "string \<Rightarrow> string \<Rightarrow> int" where
  "example_collation [] [] = 0"
| "example_collation [] (y # ys) = - 1"
| "example_collation (x # xs) [] = 1"
| "example_collation (x # xs) (y # ys) =
     (if collation_weight x < collation_weight y then - 1
      else if collation_weight y < collation_weight x then 1
      else example_collation xs ys)"

text \<open>
  Modelled from the spec: \<open>countVisited\<close> of \<open>storage.js\<close>, a file that is not
  among the sources; "the number of entries in VisitedMap".
\<close>

definition spec_countVisited :: "visited_obj \<Rightarrow> int" where
  "spec_countVisited m = int (card (dom (own m)))"

text \<open>
  Example data: a page with the grid, two pools, a pool whose id is \<open>__proto__\<close>,
  a start state.
\<close>

definition example_host :: host where
  "example_host =
     \<lparr>localeCompare = example_collation, countVisited = spec_countVisited,
      passportGrid = True\<rparr>"

definition woolwich :: pool where
  "woolwich = \<lparr>pool_id = ''woolwich'', pool_name = ''Woolwich Baths'',
               suburb = Some ''Woolwich'', stamp = None\<rparr>"

definition balmain :: pool where
  "balmain = \<lparr>pool_id = ''balmain'', pool_name = ''Dawn Fraser Baths'',
              suburb = Some ''Balmain'', stamp = None\<rparr>"

definition proto_pool :: pool where
  "proto_pool = \<lparr>pool_id = ''__proto__'', pool_name = ''Proto Pool'',
                 suburb = None, stamp = None\<rparr>"

definition empty_visited :: visited_obj where
  "empty_visited = \<lparr>own = Map.empty, proto = None\<rparr>"

definition start :: app where
  "start = \<lparr>pools = [woolwich, balmain], visited = empty_visited, selectedIndex = 0,
            currentStampsPage = 0, trace = []\<rparr>"

section \<open>Basic facts\<close>

lemma renderList_fields:
  "visited (snd (renderList h s)) = visited s"
  "pools (snd (renderList h s)) = pools s"
  "selectedIndex (snd (renderList h s)) = selectedIndex s"
  "currentStampsPage (snd (renderList h s)) = currentStampsPage s"
  by (simp_all add: renderList_def emit_def updateCount_def Let_def split: option.splits)

lemma append_cards_fields:
  "visited (snd (append_cards popId ps s)) = visited s \<and>
   pools (snd (append_cards popId ps s)) = pools s \<and>
   selectedIndex (snd (append_cards popId ps s)) = selectedIndex s \<and>
   currentStampsPage (snd (append_cards popId ps s)) = currentStampsPage s"
  by (induction ps arbitrary: s) (auto simp: emit_def split: sum.splits)

lemma renderStamps_fields:
  "visited (snd (renderStamps h popId s)) = visited s"
  "pools (snd (renderStamps h popId s)) = pools s"
  "selectedIndex (snd (renderStamps h popId s)) = selectedIndex s"
  by (simp_all add: renderStamps_def emit_def Let_def append_cards_fields split: sum.splits)

lemma toggleStamp_unfold:
  "toggleStamp h today poolId animate s =
     (let s2 = emit (WriteVisited (toggled (visited s) today poolId))
                 (s\<lparr>visited := toggled (visited s) today poolId\<rparr>)
      in case renderList h s2 of
           (Some e, s3) \<Rightarrow> (Some e, s3)
         | (None, s3) \<Rightarrow> renderStamps h (if animate then Some poolId else None) s3)"
  by (simp add: toggleStamp_def toggled_def Let_def)

lemma toggleStamp_visited:
  "visited (snd (toggleStamp h today poolId animate s)) = toggled (visited s) today poolId"
proof -
  define s2 where "s2 = emit (WriteVisited (toggled (visited s) today poolId))
                 (s\<lparr>visited := toggled (visited s) today poolId\<rparr>)"
  have v2: "visited s2 = toggled (visited s) today poolId"
    by (simp add: s2_def emit_def)
  obtain r s3 where rl: "renderList h s2 = (r, s3)"
    by (cases "renderList h s2")
  have v3: "visited s3 = visited s2"
    using renderList_fields(1) [of h s2] rl by simp
  show ?thesis
  proof (cases r)
    case None
    then show ?thesis
      using rl v2 v3 by (simp add: toggleStamp_unfold s2_def [symmetric] renderStamps_fields)
  next
    case (Some e)
    then show ?thesis
      using rl v2 v3 by (simp add: toggleStamp_unfold s2_def [symmetric])
  qed
qed

lemma renderList_trace:
  "\<exists>es. trace (snd (renderList h s)) = trace s @ es \<and> es \<noteq> [] \<and> filter is_write_visited es = []"
  by (simp add: renderList_def emit_def updateCount_def Let_def split: option.splits)

lemma append_cards_trace:
  "\<exists>es. trace (snd (append_cards popId ps s)) = trace s @ es \<and> filter is_write_visited es = []"
proof (induction ps arbitrary: s)
  case Nil
  then show ?case by simp
next
  case (Cons p ps)
  show ?case
  proof (cases "stamp_card (visited s) popId p")
    case (Inl e)
    then show ?thesis by simp
  next
    case (Inr c)
    obtain es where "trace (snd (append_cards popId ps (emit (GridCard c) s))) = trace (emit (GridCard c) s) @ es"
      "filter is_write_visited es = []"
      using Cons.IH by blast
    then show ?thesis using Inr
      by (simp add: emit_def)
  qed
qed

lemma renderStamps_trace:
  "\<exists>es. trace (snd (renderStamps h popId s)) = trace s @ es \<and> filter is_write_visited es = []"
proof (cases "passportGrid h")
  case False
  then show ?thesis by (simp add: renderStamps_def)
next
  case True
  show ?thesis
  proof (cases "visitedPools h s")
    case (Inl e)
    then show ?thesis using True by (simp add: renderStamps_def)
  next
    case (Inr vp)
    define s2 where "s2 = emit GridCleared (emit (WriteStampsPage (min (currentStampsPage s) (totalPages (length vp) - 1)))
          (s\<lparr>currentStampsPage := min (currentStampsPage s) (totalPages (length vp) - 1)\<rparr>))"
    define pp where "pp = js_slice vp (min (currentStampsPage s) (totalPages (length vp) - 1) * stampsPerPage)
        (min (currentStampsPage s) (totalPages (length vp) - 1) * stampsPerPage + stampsPerPage)"
    have eq: "renderStamps h popId s = append_cards popId pp s2"
      using True Inr by (simp add: renderStamps_def Let_def s2_def pp_def emit_def)
    obtain es where "trace (snd (append_cards popId pp s2)) = trace s2 @ es"
      "filter is_write_visited es = []"
      using append_cards_trace by blast
    then show ?thesis
      by (simp add: eq s2_def emit_def)
  qed
qed

lemma toggleStamp_trace:
  "\<exists>rest. trace (snd (toggleStamp h today poolId animate s)) =
            trace s @ WriteVisited (toggled (visited s) today poolId) # rest \<and>
          rest \<noteq> [] \<and> filter is_write_visited rest = []"
proof -
  define s2 where "s2 = emit (WriteVisited (toggled (visited s) today poolId))
                 (s\<lparr>visited := toggled (visited s) today poolId\<rparr>)"
  have t2: "trace s2 = trace s @ [WriteVisited (toggled (visited s) today poolId)]"
    by (simp add: s2_def emit_def)
  obtain r s3 where rl: "renderList h s2 = (r, s3)"
    by (cases "renderList h s2")
  obtain es where es: "trace s3 = trace s2 @ es" "es \<noteq> []" "filter is_write_visited es = []"
    using renderList_trace [of h s2] rl by auto
  show ?thesis
  proof (cases r)
    case None
    obtain fs where fs:
      "trace (snd (renderStamps h (if animate then Some poolId else None) s3)) = trace s3 @ fs"
      "filter is_write_visited fs = []"
      using renderStamps_trace by blast
    have "toggleStamp h today poolId animate s =
        renderStamps h (if animate then Some poolId else None) s3"
      using rl None by (simp add: toggleStamp_unfold s2_def [symmetric])
    then have "trace (snd (toggleStamp h today poolId animate s)) =
        trace s @ WriteVisited (toggled (visited s) today poolId) # (es @ fs)"
      using fs es t2 by simp
    moreover have "es @ fs \<noteq> []" "filter is_write_visited (es @ fs) = []"
      using es fs by simp_all
    ultimately show ?thesis by blast
  next
    case (Some e)
    then have "toggleStamp h today poolId animate s = (Some e, s3)"
      using rl by (simp add: toggleStamp_unfold s2_def [symmetric])
    then have "trace (snd (toggleStamp h today poolId animate s)) =
        trace s @ WriteVisited (toggled (visited s) today poolId) # es"
      using es t2 by simp
    then show ?thesis using es by blast
  qed
qed


lemma weight_date_char: "date_char c \<Longrightarrow> collation_weight c = 2 * of_char c"
  by (auto simp: date_char_def is_digit_def collation_weight_def)

lemma example_collation_dates:
  "date_string a \<Longrightarrow> date_string b \<Longrightarrow> (example_collation a b \<le> 0) = (a \<le> b)"
  by (induction a b rule: example_collation.induct)
     (auto simp: date_string_def weight_date_char less_char_def)

lemma example_host_collates: "collates_dates example_host"
  by (simp add: collates_dates_def example_host_def example_collation_dates)

lemma done_test_ordinary:
  "k \<noteq> ''__proto__'' \<Longrightarrow>
   done_test v k = (case own v k of None \<Rightarrow> JUndefined | Some e \<Rightarrow> ent_done e)"
  by (simp add: done_test_def js_get_def done_prop_def split: option.splits)

lemma get_entry_ordinary: "k \<noteq> ''__proto__'' \<Longrightarrow> get_entry v k = own v k"
  by (simp add: get_entry_def js_get_def split: option.splits)

lemma done_test_get_entry:
  "done_test v k = (case get_entry v k of None \<Rightarrow> JUndefined | Some e \<Rightarrow> ent_done e)"
  by (simp add: done_test_def get_entry_def done_prop_def split: looked.splits)

lemma own_toggled_other: "j \<noteq> i \<Longrightarrow> own (toggled m today i) j = own m j"
  by (simp add: toggled_def js_delete_def js_assign_visit_def)

lemma get_entry_toggled_other: "j \<noteq> i \<Longrightarrow> get_entry (toggled m today i) j = get_entry m j"
  by (auto simp: toggled_def js_delete_def js_assign_visit_def get_entry_def js_get_def
      split: option.splits)

lemma own_toggled_ordinary:
  "i \<noteq> ''__proto__'' \<Longrightarrow>
   own (toggled m today i) i =
     (if truthy (done_test m i) then None else Some \<lparr>ent_done = JBool True, ent_date = today\<rparr>)"
  by (simp add: toggled_def js_delete_def js_assign_visit_def)

lemma truthy_toggled:
  "j \<noteq> ''__proto__'' \<Longrightarrow>
   truthy (done_test (toggled m today i) j) =
     (if j = i then \<not> truthy (done_test m i) else truthy (done_test m j))"
  by (simp add: done_test_ordinary own_toggled_other own_toggled_ordinary)

lemma clicks_truthy:
  "i \<noteq> ''__proto__'' \<Longrightarrow>
   truthy (done_test (visited (clicks h cs s)) i) =
     (truthy (done_test (visited s) i) \<noteq> odd (length (filter (\<lambda>c. snd c = i) cs)))"
proof (induction cs arbitrary: s)
  case Nil
  then show ?case by simp
next
  case (Cons c cs)
  obtain today j where c: "c = (today, j)" by (cases c)
  show ?case using Cons.prems
    by (auto simp: c Cons.IH toggleStamp_visited truthy_toggled)
qed

lemma insert_by_mset:
  "insert_by cmp x ys = Inr zs \<Longrightarrow> mset zs = add_mset x (mset ys)"
  by (induction ys arbitrary: zs) (auto split: sum.splits if_splits)

lemma js_sort_mset: "js_sort cmp xs = Inr zs \<Longrightarrow> mset zs = mset xs"
  by (induction xs arbitrary: zs) (auto split: sum.splits dest: insert_by_mset)

lemma insert_by_insort_key:
  assumes "\<And>y. y \<in> set ys \<Longrightarrow> \<exists>c. cmp x y = Inr c \<and> (c \<le> 0) = (k x \<le> k y)"
  shows "insert_by cmp x ys = Inr (insort_key k x ys)"
  using assms
proof (induction ys)
  case Nil
  then show ?case by simp
next
  case (Cons y ys)
  obtain c where c: "cmp x y = Inr c" "(c \<le> 0) = (k x \<le> k y)"
    using Cons.prems [of y] by auto
  have "insert_by cmp x ys = Inr (insort_key k x ys)"
    using Cons.IH Cons.prems by simp
  then show ?case using c by simp
qed

lemma js_sort_sort_key:
  assumes "\<And>x y. x \<in> set xs \<Longrightarrow> y \<in> set xs \<Longrightarrow> \<exists>c. cmp x y = Inr c \<and> (c \<le> 0) = (k x \<le> k y)"
  shows "js_sort cmp xs = Inr (sort_key k xs)"
  using assms
proof (induction xs)
  case Nil
  then show ?case by simp
next
  case (Cons x xs)
  have ih: "js_sort cmp xs = Inr (sort_key k xs)"
    using Cons.IH Cons.prems by simp
  have "insert_by cmp x (sort_key k xs) = Inr (insort_key k x (sort_key k xs))"
    using Cons.prems by (intro insert_by_insort_key) simp
  then show ?case using ih by (simp add: sort_key_def)
qed

lemma insert_by_total:
  assumes "\<And>y. y \<in> set ys \<Longrightarrow> \<exists>c. cmp x y = Inr c"
  shows "\<exists>zs. insert_by cmp x ys = Inr zs"
  using assms
proof (induction ys)
  case Nil
  then show ?case by simp
next
  case (Cons y ys)
  obtain c where c: "cmp x y = Inr c" using Cons.prems [of y] by auto
  obtain zs where "insert_by cmp x ys = Inr zs" using Cons.IH Cons.prems by auto
  then show ?case using c by simp
qed

lemma js_sort_total:
  assumes "\<And>x y. x \<in> set xs \<Longrightarrow> y \<in> set xs \<Longrightarrow> \<exists>c. cmp x y = Inr c"
  shows "\<exists>zs. js_sort cmp xs = Inr zs"
  using assms
proof (induction xs)
  case Nil
  then show ?case by simp
next
  case (Cons x xs)
  obtain ys where ys: "js_sort cmp xs = Inr ys" using Cons.IH Cons.prems by auto
  then have "set ys = set xs" using js_sort_mset mset_eq_setD by blast
  then have "\<exists>zs. insert_by cmp x ys = Inr zs"
    using Cons.prems by (intro insert_by_total) simp
  then show ?case using ys by auto
qed

lemma truthy_done_entry:
  assumes "truthy (done_test m k)"
  shows "\<exists>e. get_entry m k = Some e \<and> js_get m k = AnEntry e \<and> truthy (ent_done e)"
  using assms by (auto simp: done_test_def get_entry_def done_prop_def split: looked.splits)

lemma compare_dates_done:
  assumes "truthy (done_test m (pool_id a))" "truthy (done_test m (pool_id b))"
  shows "\<exists>ea eb. get_entry m (pool_id a) = Some ea \<and> get_entry m (pool_id b) = Some eb \<and>
           compare_dates h m a b = Inr (localeCompare h (ent_date ea) (ent_date eb))"
proof -
  obtain ea where ea: "get_entry m (pool_id a) = Some ea" "js_get m (pool_id a) = AnEntry ea"
    using truthy_done_entry [OF assms(1)] by blast
  obtain eb where eb: "get_entry m (pool_id b) = Some eb" "js_get m (pool_id b) = AnEntry eb"
    using truthy_done_entry [OF assms(2)] by blast
  show ?thesis using ea eb by (simp add: compare_dates_def date_prop_def)
qed

lemma visitedPools_ok:
  "\<exists>vp. visitedPools h s = Inr vp \<and>
        mset vp = mset (filter (\<lambda>p. truthy (done_test (visited s) (pool_id p))) (pools s))"
proof -
  have "\<exists>zs. js_sort (compare_dates h (visited s))
           (filter (\<lambda>p. truthy (done_test (visited s) (pool_id p))) (pools s)) = Inr zs"
  proof (rule js_sort_total)
    fix x y
    assume "x \<in> set (filter (\<lambda>p. truthy (done_test (visited s) (pool_id p))) (pools s))"
      and "y \<in> set (filter (\<lambda>p. truthy (done_test (visited s) (pool_id p))) (pools s))"
    then show "\<exists>c. compare_dates h (visited s) x y = Inr c"
      using compare_dates_done [of "visited s" x y h] by auto
  qed
  then show ?thesis
    using js_sort_mset by (fastforce simp: visitedPools_def)
qed

lemma visitedPools_set:
  assumes "visitedPools h s = Inr vp"
  shows "set vp = {p \<in> set (pools s). truthy (done_test (visited s) (pool_id p))}"
proof -
  have "mset vp = mset (filter (\<lambda>p. truthy (done_test (visited s) (pool_id p))) (pools s))"
    using assms visitedPools_ok [of h s] by auto
  then have "set vp = set (filter (\<lambda>p. truthy (done_test (visited s) (pool_id p))) (pools s))"
    by (rule mset_eq_setD)
  then show ?thesis by simp
qed

lemma well_formed_entry:
  assumes "well_formed m" "get_entry m k = Some e"
  shows "ent_done e = JBool True \<and> date_string (ent_date e)"
  using assms
  by (auto simp: well_formed_def get_entry_def js_get_def split: option.splits if_splits)

lemma well_formed_truthy:
  assumes "well_formed m"
  shows "truthy (done_test m k) = (get_entry m k \<noteq> None)"
proof (cases "get_entry m k")
  case None
  then show ?thesis by (simp add: done_test_get_entry)
next
  case (Some e)
  then show ?thesis using well_formed_entry [OF assms Some] by (simp add: done_test_get_entry)
qed

lemma visitedPools_lex:
  assumes "collates_dates h" "well_formed (visited s)"
  shows "visitedPools h s =
           Inr (sort_key (date_key (visited s))
                  (filter (\<lambda>p. truthy (done_test (visited s) (pool_id p))) (pools s)))"
  unfolding visitedPools_def
proof (rule js_sort_sort_key)
  fix x y
  assume "x \<in> set (filter (\<lambda>p. truthy (done_test (visited s) (pool_id p))) (pools s))"
    and "y \<in> set (filter (\<lambda>p. truthy (done_test (visited s) (pool_id p))) (pools s))"
  then have "truthy (done_test (visited s) (pool_id x))" "truthy (done_test (visited s) (pool_id y))"
    by simp_all
  then obtain ea eb where e: "get_entry (visited s) (pool_id x) = Some ea"
    "get_entry (visited s) (pool_id y) = Some eb"
    "compare_dates h (visited s) x y = Inr (localeCompare h (ent_date ea) (ent_date eb))"
    using compare_dates_done by blast
  have "date_string (ent_date ea)" "date_string (ent_date eb)"
    using well_formed_entry [OF assms(2)] e by blast+
  then have "(localeCompare h (ent_date ea) (ent_date eb) \<le> 0) = (ent_date ea \<le> ent_date eb)"
    using assms(1) by (simp add: collates_dates_def)
  then show "\<exists>c. compare_dates h (visited s) x y = Inr c \<and>
       (c \<le> 0) = (date_key (visited s) x \<le> date_key (visited s) y)"
    using e by (simp add: date_key_def)
qed

lemma visitedPools_sorted:
  assumes "collates_dates h" "well_formed (visited s)" "visitedPools h s = Inr vp"
  shows "sorted_wrt (date_le (visited s)) vp"
proof -
  have vp: "vp = sort_key (date_key (visited s))
                  (filter (\<lambda>p. truthy (done_test (visited s) (pool_id p))) (pools s))"
    using assms visitedPools_lex by simp
  then have "sorted (map (date_key (visited s)) vp)" by simp
  then have srt: "sorted_wrt (\<lambda>p q. date_key (visited s) p \<le> date_key (visited s) q) vp"
    by (simp add: sorted_map)
  have ent: "\<And>p. p \<in> set vp \<Longrightarrow> get_entry (visited s) (pool_id p) \<noteq> None"
    using visitedPools_set [OF assms(3)] truthy_done_entry by fastforce
  show ?thesis
  proof (rule sorted_wrt_mono_rel [OF _ srt])
    fix p q
    assume "p \<in> set vp" "q \<in> set vp"
      and "date_key (visited s) p \<le> date_key (visited s) q"
    then show "date_le (visited s) p q"
      using ent [of p] ent [of q] by (auto simp: date_le_def date_key_def)
  qed
qed

lemma js_slice_subset: "set (js_slice xs a b) \<subseteq> set xs"
  by (metis js_slice_def set_drop_subset set_take_subset subset_trans)

lemma js_slice_page:
  assumes "0 \<le> k"
  shows "js_slice xs (k * stampsPerPage) (k * stampsPerPage + stampsPerPage)
     = take 3 (drop (3 * nat k) xs)"
proof (cases "k * 3 < int (length xs)")
  case True
  then have n: "nat (k * 3) = 3 * nat k" "3 * nat k < length xs" using assms by linarith+
  show ?thesis
  proof (cases "k * 3 + 3 \<le> int (length xs)")
    case True
    then show ?thesis using assms n \<open>k * 3 < int (length xs)\<close>
      by (simp add: js_slice_def stampsPerPage_def Let_def min_def)
  next
    case False
    then have "length (drop (3 * nat k) xs) \<le> 3" using n assms by (simp; linarith)
    then have "take 3 (drop (3 * nat k) xs) = drop (3 * nat k) xs" by simp
    moreover have "length (drop (3 * nat k) xs) = nat (int (length xs) - k * 3)"
      using n assms by (simp; linarith)
    ultimately show ?thesis using False assms n \<open>k * 3 < int (length xs)\<close>
      by (simp add: js_slice_def stampsPerPage_def Let_def min_def)
  qed
next
  case False
  then have "length xs \<le> 3 * nat k" using assms by linarith
  then have "drop (3 * nat k) xs = []" by simp
  then show ?thesis using False assms
    by (simp add: js_slice_def stampsPerPage_def Let_def min_def)
qed

lemma append_cards_ok:
  assumes "\<And>p. p \<in> set ps \<Longrightarrow> js_get (visited s) (pool_id p) \<noteq> NoValue"
  shows "\<exists>cs. append_cards popId ps s = (None, s\<lparr>trace := trace s @ map GridCard cs\<rparr>) \<and>
              map Inr cs = map (stamp_card (visited s) popId) ps"
  using assms
proof (induction ps arbitrary: s)
  case Nil
  then show ?case by simp
next
  case (Cons p ps)
  have "js_get (visited s) (pool_id p) \<noteq> NoValue" using Cons.prems [of p] by simp
  then obtain c where c: "stamp_card (visited s) popId p = Inr c"
    by (cases "js_get (visited s) (pool_id p)") (simp_all add: stamp_card_def)
  have "\<And>q. q \<in> set ps \<Longrightarrow> js_get (visited (emit (GridCard c) s)) (pool_id q) \<noteq> NoValue"
    using Cons.prems by (simp add: emit_def)
  then obtain cs where cs:
    "append_cards popId ps (emit (GridCard c) s) =
       (None, (emit (GridCard c) s)\<lparr>trace := trace (emit (GridCard c) s) @ map GridCard cs\<rparr>)"
    "map Inr cs = map (stamp_card (visited (emit (GridCard c) s)) popId) ps"
    using Cons.IH by blast
  have "append_cards popId (p # ps) s = (None, s\<lparr>trace := trace s @ map GridCard (c # cs)\<rparr>)"
    using c cs(1) by (simp add: emit_def)
  moreover have "map Inr (c # cs) = map (stamp_card (visited s) popId) (p # ps)"
    using c cs(2) by (simp add: emit_def)
  ultimately show ?case by blast
qed

lemma totalPages_eq: "totalPages n = max 1 ((int n + 2) div 3)"
proof -
  have "\<lceil>real n / 3\<rceil> = \<lceil>real_of_int (int n) / real_of_int 3\<rceil>" by simp
  also have "\<dots> = - (- int n div 3)" by (rule ceiling_divide_eq_div)
  also have "\<dots> = (int n + 2) div 3" by presburger
  finally show ?thesis by (simp add: totalPages_def stampsPerPage_def)
qed

lemma pages_written_append: "pages_written (es @ fs) = pages_written es @ pages_written fs"
  by (induction es) (auto split: event.splits)

lemma pages_written_map: "pages_written (map GridCard cs) = []"
  by (induction cs) auto

lemma grid_after_append: "grid_after g (es @ fs) = grid_after (grid_after g es) fs"
  by (induction es arbitrary: g) (auto split: event.splits)

lemma grid_after_cards: "grid_after g (map GridCard cs) = g @ cs"
  by (induction cs arbitrary: g) auto

lemma renderStamps_ok:
  assumes "passportGrid h" "visitedPools h s = Inr vp"
  shows "\<exists>cs. renderStamps h popId s =
           (None, s\<lparr>currentStampsPage := min (currentStampsPage s) (totalPages (length vp) - 1),
                     trace := trace s @
                       [WriteStampsPage (min (currentStampsPage s) (totalPages (length vp) - 1)),
                        GridCleared] @ map GridCard cs\<rparr>) \<and>
           map Inr cs = map (stamp_card (visited s) popId)
             (js_slice vp (min (currentStampsPage s) (totalPages (length vp) - 1) * stampsPerPage)
                (min (currentStampsPage s) (totalPages (length vp) - 1) * stampsPerPage + stampsPerPage))"
proof -
  define k where "k = min (currentStampsPage s) (totalPages (length vp) - 1)"
  define s2 where "s2 = emit GridCleared (emit (WriteStampsPage k) (s\<lparr>currentStampsPage := k\<rparr>))"
  define pp where "pp = js_slice vp (k * stampsPerPage) (k * stampsPerPage + stampsPerPage)"
  have eq: "renderStamps h popId s = append_cards popId pp s2"
    using assms by (simp add: renderStamps_def Let_def s2_def pp_def k_def emit_def)
  have "\<And>p. p \<in> set pp \<Longrightarrow> js_get (visited s2) (pool_id p) \<noteq> NoValue"
  proof -
    fix p assume "p \<in> set pp"
    then have "p \<in> set vp" using js_slice_subset pp_def by fastforce
    then have "truthy (done_test (visited s) (pool_id p))"
      using visitedPools_set [OF assms(2)] by simp
    then show "js_get (visited s2) (pool_id p) \<noteq> NoValue"
      using truthy_done_entry by (fastforce simp: s2_def emit_def)
  qed
  then obtain cs where cs: "append_cards popId pp s2 = (None, s2\<lparr>trace := trace s2 @ map GridCard cs\<rparr>)"
    "map Inr cs = map (stamp_card (visited s2) popId) pp"
    using append_cards_ok by blast
  have "renderStamps h popId s = (None, s\<lparr>currentStampsPage := k,
                     trace := trace s @ [WriteStampsPage k, GridCleared] @ map GridCard cs\<rparr>)"
    using eq cs(1) by (simp add: s2_def emit_def)
  moreover have "map Inr cs = map (stamp_card (visited s) popId) pp"
    using cs(2) by (simp add: s2_def emit_def)
  ultimately show ?thesis unfolding k_def pp_def by blast
qed

section \<open>Facts about the date helper, the list view and the toggle\<close>

lemma digit1_Some: "(digit1 s = Some r) = (\<exists>c. s = c # r \<and> is_digit c)"
  by (cases s) auto

lemma lit_Some: "(lit c s = Some r) = (s = c # r)"
  by (cases s) auto

lemma digits2_Some: "(digits2 s = Some r) = (\<exists>a b. s = a # b # r \<and> is_digit a \<and> is_digit b)"
  by (auto simp: digits2_def bind_eq_Some_conv digit1_Some)

lemma digits4_Some:
  "(digits4 s = Some r) =
     (\<exists>a b c d. s = a # b # c # d # r \<and> is_digit a \<and> is_digit b \<and> is_digit c \<and> is_digit d)"
  by (auto simp: digits4_def bind_eq_Some_conv digits2_Some)

lemma iso_regex_test_iff:
  "iso_regex_test s =
     (\<exists>a b c d e f g h. s = [a, b, c, d, CHR ''-'', e, f, CHR ''-'', g, h] \<and>
        is_digit a \<and> is_digit b \<and> is_digit c \<and> is_digit d \<and>
        is_digit e \<and> is_digit f \<and> is_digit g \<and> is_digit h)"
  unfolding iso_regex_test_def bind_eq_Some_conv digits4_Some digits2_Some lit_Some
  by (rule iffI; (elim exE conjE)?; simp?) 


lemma length10:
  "(length s = 10) = (\<exists>a b c d i e f j g h. s = [a, b, c, d, i, e, f, j, g, h])"
  by (auto simp: numeral_eq_Suc length_Suc_conv)

lemma iso_shape_iff:
  "iso_shape s =
     (\<exists>a b c d e f g h. s = [a, b, c, d, CHR ''-'', e, f, CHR ''-'', g, h] \<and>
        is_digit a \<and> is_digit b \<and> is_digit c \<and> is_digit d \<and>
        is_digit e \<and> is_digit f \<and> is_digit g \<and> is_digit h)"
proof
  assume a: "iso_shape s"
  then have "length s = 10" by (simp add: iso_shape_def)
  then have "\<exists>a b c d i e f j g h. s = [a, b, c, d, i, e, f, j, g, h]"
    by (simp only: length10)
  then obtain a b c d i e f j g h where s: "s = [a, b, c, d, i, e, f, j, g, h]"
    by (elim exE)
  show "\<exists>a b c d e f g h. s = [a, b, c, d, CHR ''-'', e, f, CHR ''-'', g, h] \<and>
        is_digit a \<and> is_digit b \<and> is_digit c \<and> is_digit d \<and>
        is_digit e \<and> is_digit f \<and> is_digit g \<and> is_digit h"
    using a unfolding s by (simp add: iso_shape_def numeral_eq_Suc)
next
  assume "\<exists>a b c d e f g h. s = [a, b, c, d, CHR ''-'', e, f, CHR ''-'', g, h] \<and>
        is_digit a \<and> is_digit b \<and> is_digit c \<and> is_digit d \<and>
        is_digit e \<and> is_digit f \<and> is_digit g \<and> is_digit h"
  then obtain a b c d e f g h where s: "s = [a, b, c, d, CHR ''-'', e, f, CHR ''-'', g, h]"
    and dg: "is_digit a" "is_digit b" "is_digit c" "is_digit d"
        "is_digit e" "is_digit f" "is_digit g" "is_digit h"
    by blast
  show "iso_shape s" using dg unfolding s by (simp add: iso_shape_def numeral_eq_Suc)
qed

lemma iso_regex_test_shape: "iso_regex_test s = iso_shape s"
  by (simp only: iso_regex_test_iff iso_shape_iff)

lemma is_digit_not_hyphen: "is_digit c \<Longrightarrow> c \<noteq> CHR ''-''"
  by (auto simp: is_digit_def)

lemma split_on_plain: "c \<notin> set w \<Longrightarrow> split_on c (w @ c # rest) = w # split_on c rest"
  by (induction w) auto

lemma split_on_none: "c \<notin> set w \<Longrightarrow> split_on c w = [w]"
  by (induction w) auto

lemma split_iso:
  assumes "list_all is_digit y" "list_all is_digit m" "list_all is_digit d"
  shows "split_on CHR ''-'' (y @ ''-'' @ m @ ''-'' @ d) = [y, m, d]"
proof -
  have n: "CHR ''-'' \<notin> set y" "CHR ''-'' \<notin> set m" "CHR ''-'' \<notin> set d"
    using assms is_digit_not_hyphen by (auto simp: list_all_iff)
  show ?thesis using n by (simp add: split_on_plain split_on_none)
qed

lemma iso_shape_parts:
  assumes "length y = 4" "length m = 2" "length d = 2"
    "list_all is_digit y" "list_all is_digit m" "list_all is_digit d"
  shows "iso_shape (y @ ''-'' @ m @ ''-'' @ d)"
  using assms by (simp add: iso_shape_def nth_append)


lemma date_prop_get_entry: "date_prop (js_get v k) = map_option ent_date (get_entry v k)"
  by (simp add: date_prop_def get_entry_def split: looked.splits)

lemma renderList_row:
  assumes "js_index (pools s) (selectedIndex s) = Some p"
  shows "renderList h s =
     (None, updateCount h (emit (PoolListRow
        \<lparr>row_name = pool_name p, row_data_id = pool_id p,
         row_stamped = (done_test (visited s) (pool_id p) = JBool True),
         row_chip = (if done_test (visited s) (pool_id p) = JBool True
                     then Visited (formatDateAU
                            (map_option ent_date (get_entry (visited s) (pool_id p))))
                     else MarkAsVisited)\<rparr>) (emit PoolListCleared s)))"
proof -
  have "pools s \<noteq> []" using assms by (auto simp: js_index_def split: if_splits)
  then show ?thesis using assms
    by (simp add: renderList_def emit_def Let_def done_test_def [symmetric] date_prop_get_entry)
qed

lemma renderList_no_write:
  "filter is_write_visited (trace (snd (renderList h s))) = filter is_write_visited (trace s)"
  using renderList_trace [of h s] by auto

lemma renderStamps_no_write:
  "filter is_write_visited (trace (snd (renderStamps h popId s))) = filter is_write_visited (trace s)"
  using renderStamps_trace [of h popId s] by auto

lemma renderList_out_of_range:
  assumes "pools s \<noteq> []" "js_index (pools s) (selectedIndex s) = None"
  shows "renderList h s = (Some TypeError, emit PoolListCleared s)"
  using assms by (simp add: renderList_def emit_def Let_def)

lemma openInNativeMaps_fallback:
  assumes "pools s \<noteq> []" "js_index (pools s) (selectedIndex s) = None"
  shows "openInNativeMaps s = Some (hd (pools s))"
  using assms by (cases "pools s") (simp_all add: openInNativeMaps_def js_index_def)


lemma all_done_toggled: "all_done m \<Longrightarrow> all_done (toggled m today i)"
  by (auto simp: all_done_def toggled_def js_delete_def js_assign_visit_def)

lemma clicks_all_done: "all_done (visited s) \<Longrightarrow> all_done (visited (clicks h cs s))"
proof (induction cs arbitrary: s)
  case Nil
  then show ?case by simp
next
  case (Cons c cs)
  obtain today j where c: "c = (today, j)" by (cases c)
  show ?case using Cons.prems
    by (simp add: c Cons.IH toggleStamp_visited all_done_toggled)
qed

lemma well_formed_toggled:
  "well_formed m \<Longrightarrow> date_string today \<Longrightarrow> well_formed (toggled m today i)"
  by (auto simp: well_formed_def toggled_def js_delete_def js_assign_visit_def)

lemma clicks_well_formed:
  "well_formed (visited s) \<Longrightarrow> list_all (\<lambda>c. date_string (fst c)) cs \<Longrightarrow>
   well_formed (visited (clicks h cs s))"
proof (induction cs arbitrary: s)
  case Nil
  then show ?case by simp
next
  case (Cons c cs)
  obtain today j where c: "c = (today, j)" by (cases c)
  show ?case using Cons.prems
    by (simp add: c Cons.IH toggleStamp_visited well_formed_toggled)
qed

text \<open>
  For a pool id other than \<open>__proto__\<close>: from an empty visited object, after any run
  of toggles, the id has an own entry exactly when the number of toggles on it is
  odd, and the \<open>done\<close> test is true in exactly that case.
\<close>

lemma toggle_parity_ordinary:
  assumes "visited s = empty_visited" "poolId \<noteq> ''__proto__''"
  shows "(own (visited (clicks h cs s)) poolId \<noteq> None) =
           odd (length (filter (\<lambda>c. snd c = poolId) cs)) \<and>
         truthy (done_test (visited (clicks h cs s)) poolId) =
           odd (length (filter (\<lambda>c. snd c = poolId) cs))"
proof -
  have "all_done (visited s)" using assms(1) by (simp add: all_done_def empty_visited_def)
  then have "all_done (visited (clicks h cs s))" by (rule clicks_all_done)
  then have "(own (visited (clicks h cs s)) poolId \<noteq> None) =
      truthy (done_test (visited (clicks h cs s)) poolId)"
    using assms(2) by (auto simp: all_done_def done_test_ordinary split: option.splits)
  moreover have "\<not> truthy (done_test (visited s) poolId)"
    using assms by (simp add: done_test_ordinary empty_visited_def)
  ultimately show ?thesis
    using assms(2) by (simp add: clicks_truthy)
qed

text \<open>
  For a pool id other than \<open>__proto__\<close>, one toggle deletes the own entry whose
  \<open>done\<close> is truthy and otherwise stores \<open>{ done: true, date: today }\<close>.
\<close>

lemma toggle_ordinary:
  assumes "poolId \<noteq> ''__proto__''"
  shows "own (visited (snd (toggleStamp h today poolId animate s))) poolId =
           (if truthy (done_test (visited s) poolId) then None
            else Some \<lparr>ent_done = JBool True, ent_date = today\<rparr>)"
  using assms by (simp add: toggleStamp_visited own_toggled_ordinary)

section \<open>Facts about the reset handler\<close>

lemma removeItems_result:
  "removeItems throws ks b =
     (if \<exists>k \<in> set ks. throws k then Some StorageError else None,
      b\<lparr>localStorage := (\<lambda>k. if k \<in> set (takeWhile (\<lambda>k. \<not> throws k) ks) then None
                                 else localStorage b k),
         ui := ui b @ map RemoveItem (takeWhile (\<lambda>k. \<not> throws k) ks)\<rparr>)"
proof (induction ks arbitrary: b)
  case Nil
  then show ?case by simp
next
  case (Cons k ks)
  show ?case
  proof (cases "throws k")
    case True
    then show ?thesis by simp
  next
    case False
    have "(\<lambda>x. if x \<in> set (takeWhile (\<lambda>k. \<not> throws k) ks) then None
                else localStorage (b\<lparr>localStorage := (localStorage b)(k := None),
                                     ui := ui b @ [RemoveItem k]\<rparr>) x) =
          (\<lambda>x. if x = k \<or> x \<in> set (takeWhile (\<lambda>k. \<not> throws k) ks) then None
                else localStorage b x)"
      by (rule ext) simp
    then show ?thesis using False by (simp add: Cons.IH)
  qed
qed

lemmas example_defs = renderList_def renderStamps_def emit_def updateCount_def js_index_def
  Let_def visitedPools_def compare_dates_def totalPages_def stampsPerPage_def js_slice_def
  stamp_card_def getStampSrc_def or_else_def done_test_def js_get_def done_prop_def
  date_prop_def example_host_def start_def empty_visited_def woolwich_def balmain_def
  openInNativeMaps_def collation_weight_def object_prototype_methods_def

section \<open>Toggle parity\<close>

text \<open>
  Claim C1. From an empty visited object, after any run of \<open>toggleStamp\<close> calls, a
  pool is to be visited exactly when the number of calls on its id is odd. For every
  id other than \<open>__proto__\<close> this is so (\<open>toggle_parity_ordinary\<close> above). For the
  id \<open>__proto__\<close> it is not: the assignment of the first call runs the setter of
  \<open>Object.prototype\<close>, which makes the new entry the prototype and adds no own key;
  the second call finds \<open>done\<close> true and deletes, which removes nothing. After two
  calls, an even number, \<open>visited['__proto__']\<close> is still the entry of the first
  call and its \<open>done\<close> is true.
\<close>

theorem proto_toggled_twice:
  "visited (start\<lparr>pools := [proto_pool]\<rparr>) = empty_visited \<and>
   even (length (filter (\<lambda>c. snd c = ''__proto__'')
      [(''16/12/2025'', ''__proto__''), (''17/12/2025'', ''__proto__'')])) \<and>
   visited (clicks example_host
      [(''16/12/2025'', ''__proto__''), (''17/12/2025'', ''__proto__'')] (start\<lparr>pools := [proto_pool]\<rparr>)) =
     \<lparr>own = Map.empty, proto = Some ''16/12/2025''\<rparr> \<and>
   done_test (visited (clicks example_host
      [(''16/12/2025'', ''__proto__''), (''17/12/2025'', ''__proto__'')] (start\<lparr>pools := [proto_pool]\<rparr>))) ''__proto__'' =
     JBool True \<and>
   get_entry (visited (clicks example_host
      [(''16/12/2025'', ''__proto__''), (''17/12/2025'', ''__proto__'')] (start\<lparr>pools := [proto_pool]\<rparr>))) ''__proto__'' =
     Some \<lparr>ent_done = JBool True, ent_date = ''16/12/2025''\<rparr>"
  by (simp add: toggleStamp_visited toggled_def js_delete_def js_assign_visit_def start_def
      empty_visited_def done_test_def js_get_def done_prop_def get_entry_def)

section \<open>What one toggle does\<close>

text \<open>
  Claim C2. \<open>toggleStamp(poolId)\<close> is to delete the entry of \<open>poolId\<close> whenever
  there is one. For an id other than \<open>__proto__\<close> it deletes the own entry whose
  \<open>done\<close> is truthy and stores \<open>{ done: true, date: today }\<close> otherwise
  (\<open>toggle_ordinary\<close> above), and it passes the updated object to
  \<open>writeVisited\<close> before it renders (\<open>toggleStamp_trace\<close> above). For the id
  \<open>__proto__\<close>, after one call from the empty object \<open>visited['__proto__']\<close> is
  the entry of that call, held as the prototype and not as an own key; the next call
  takes the delete branch and leaves the object as it is, the entry still there.
\<close>

theorem proto_entry_not_deleted:
  "get_entry (visited (snd (toggleStamp example_host ''16/12/2025'' ''__proto__'' True (start\<lparr>pools := [proto_pool]\<rparr>))))
     ''__proto__'' = Some \<lparr>ent_done = JBool True, ent_date = ''16/12/2025''\<rparr> \<and>
   own (visited (snd (toggleStamp example_host ''16/12/2025'' ''__proto__'' True (start\<lparr>pools := [proto_pool]\<rparr>))))
     ''__proto__'' = None \<and>
   visited (snd (toggleStamp example_host ''17/12/2025'' ''__proto__'' True
      (snd (toggleStamp example_host ''16/12/2025'' ''__proto__'' True (start\<lparr>pools := [proto_pool]\<rparr>))))) =
     visited (snd (toggleStamp example_host ''16/12/2025'' ''__proto__'' True (start\<lparr>pools := [proto_pool]\<rparr>))) \<and>
   get_entry (visited (snd (toggleStamp example_host ''17/12/2025'' ''__proto__'' True
      (snd (toggleStamp example_host ''16/12/2025'' ''__proto__'' True (start\<lparr>pools := [proto_pool]\<rparr>)))))) ''__proto__'' =
     Some \<lparr>ent_done = JBool True, ent_date = ''16/12/2025''\<rparr>"
  by (simp add: toggleStamp_visited toggled_def js_delete_def js_assign_visit_def start_def
      empty_visited_def done_test_def js_get_def done_prop_def get_entry_def)

section \<open>The stamps page index\<close>

text \<open>
  Claim C3. The page index is a non-negative integer. On a page that has the grid, for
  every number \<open>v\<close> of visited catalog pools and every such index in memory, a
  stamps render computes \<open>max(1, ceil(v / 3))\<close> pages, and the index it keeps and
  writes to storage lies between 0 and the last page; so it is never negative, also
  when no pool is visited.
\<close>

theorem stamps_page_index:
  assumes "passportGrid h" "0 \<le> currentStampsPage s"
  shows "\<exists>vp. visitedPools h s = Inr vp \<and>
           length vp =
             length (filter (\<lambda>p. truthy (done_test (visited s) (pool_id p))) (pools s)) \<and>
           totalPages (length vp) = max 1 \<lceil>real (length vp) / 3\<rceil> \<and>
           totalPages (length vp) = max 1 ((int (length vp) + 2) div 3) \<and>
           pages_written (trace (snd (renderStamps h popId s))) =
             pages_written (trace s) @ [currentStampsPage (snd (renderStamps h popId s))] \<and>
           currentStampsPage (snd (renderStamps h popId s)) =
             min (currentStampsPage s) (totalPages (length vp) - 1) \<and>
           0 \<le> currentStampsPage (snd (renderStamps h popId s)) \<and>
           currentStampsPage (snd (renderStamps h popId s)) \<le> totalPages (length vp) - 1"
proof -
  obtain vp where vp: "visitedPools h s = Inr vp"
    and ms: "mset vp = mset (filter (\<lambda>p. truthy (done_test (visited s) (pool_id p))) (pools s))"
    using visitedPools_ok by blast
  have len: "length vp =
      length (filter (\<lambda>p. truthy (done_test (visited s) (pool_id p))) (pools s))"
    using ms by (rule mset_eq_length)
  obtain cs where cs: "renderStamps h popId s =
           (None, s\<lparr>currentStampsPage := min (currentStampsPage s) (totalPages (length vp) - 1),
                     trace := trace s @
                       [WriteStampsPage (min (currentStampsPage s) (totalPages (length vp) - 1)),
                        GridCleared] @ map GridCard cs\<rparr>)"
    using renderStamps_ok [OF assms(1) vp] by blast
  have one: "1 \<le> totalPages (length vp)" by (simp add: totalPages_def)
  have tp: "totalPages (length vp) = max 1 \<lceil>real (length vp) / 3\<rceil>"
    by (simp add: totalPages_def stampsPerPage_def)
  have w: "pages_written (trace (snd (renderStamps h popId s))) =
             pages_written (trace s) @ [currentStampsPage (snd (renderStamps h popId s))]"
    by (simp add: cs pages_written_append pages_written_map)
  have k: "currentStampsPage (snd (renderStamps h popId s)) =
             min (currentStampsPage s) (totalPages (length vp) - 1)"
    by (simp add: cs)
  have le: "currentStampsPage (snd (renderStamps h popId s)) \<le> totalPages (length vp) - 1"
    unfolding k by simp
  have ge: "0 \<le> currentStampsPage (snd (renderStamps h popId s))"
    unfolding k using one assms(2) by simp
  show ?thesis
    using vp len tp w k totalPages_eq [of "length vp"] le ge by blast
qed

theorem stamps_page_index_witness:
  "passportGrid example_host \<and> (0::int) \<le> currentStampsPage (start\<lparr>currentStampsPage := 5\<rparr>) \<and>
   currentStampsPage (snd (renderStamps example_host None (start\<lparr>currentStampsPage := 5\<rparr>))) = 0 \<and>
   pages_written (trace (snd (renderStamps example_host None (start\<lparr>currentStampsPage := 5\<rparr>)))) = [0]"
  using stamps_page_index [of example_host "start\<lparr>currentStampsPage := 5\<rparr>" None]
  by (simp add: example_defs)

section \<open>The selection index\<close>

text \<open>
  Claim C4. With a non-empty pool list, a selection index outside the list is to be
  treated as index 0, so that no render reads a missing pool record.
  \<open>openInNativeMaps\<close> does so (\<open>pools[selectedIndex] || pools[0]\<close>);
  \<open>renderList\<close> reads \<open>pools[selectedIndex]\<close> as it is and raises a TypeError
  on \<open>p.id\<close> (\<open>renderList_out_of_range\<close> above, for every such state). Here the
  catalog has shrunk to one pool and the stored index is 1.
\<close>

theorem selection_out_of_range:
  "renderList example_host (start\<lparr>pools := [woolwich], selectedIndex := 1\<rparr>) =
     (Some TypeError,
      start\<lparr>pools := [woolwich], selectedIndex := 1, trace := [PoolListCleared]\<rparr>) \<and>
   openInNativeMaps (start\<lparr>pools := [woolwich], selectedIndex := 1\<rparr>) = Some woolwich"
  by (simp add: example_defs)

section \<open>The stamps gallery\<close>

text \<open>
  Claim C5. The visited object satisfies the data model's invariant (every entry has
  \<open>done\<close> true and a date string), the page index is not negative, the page has
  the grid, and the platform's \<open>localeCompare\<close> orders date strings as the
  lexicographic comparison does. Then the stamps renderer selects exactly the catalog
  pools that have a visited entry (each as often as the catalog lists it), orders
  them ascending by lexicographic comparison of the stored date strings, and, for the
  page index \<open>k\<close> it settles on, leaves in the grid exactly the cards of the part
  of that list from position \<open>3k\<close> up to, and excluding, \<open>3k + 3\<close>, in order,
  whatever the grid held before.
\<close>

theorem stamps_gallery:
  assumes "passportGrid h" "collates_dates h" "well_formed (visited s)"
    and "0 \<le> currentStampsPage s"
  shows "\<exists>vp cs. visitedPools h s = Inr vp \<and>
           mset vp = mset (filter (\<lambda>p. get_entry (visited s) (pool_id p) \<noteq> None) (pools s)) \<and>
           sorted_wrt (date_le (visited s)) vp \<and>
           fst (renderStamps h popId s) = None \<and>
           (\<forall>g. grid_after g (trace (snd (renderStamps h popId s))) = cs) \<and>
           map Inr cs = map (stamp_card (visited s) popId)
             (take 3 (drop (3 * nat (currentStampsPage (snd (renderStamps h popId s)))) vp))"
proof -
  obtain vp where vp: "visitedPools h s = Inr vp"
    "mset vp = mset (filter (\<lambda>p. truthy (done_test (visited s) (pool_id p))) (pools s))"
    using visitedPools_ok by blast
  have sel: "mset vp = mset (filter (\<lambda>p. get_entry (visited s) (pool_id p) \<noteq> None) (pools s))"
    using vp(2) by (simp add: well_formed_truthy [OF assms(3)])
  define k where "k = min (currentStampsPage s) (totalPages (length vp) - 1)"
  obtain cs where cs: "renderStamps h popId s =
           (None, s\<lparr>currentStampsPage := k,
                     trace := trace s @ [WriteStampsPage k, GridCleared] @ map GridCard cs\<rparr>)"
    "map Inr cs = map (stamp_card (visited s) popId)
             (js_slice vp (k * stampsPerPage) (k * stampsPerPage + stampsPerPage))"
    using renderStamps_ok [OF assms(1) vp(1)] unfolding k_def by blast
  have srt: "sorted_wrt (date_le (visited s)) vp"
    using visitedPools_sorted [OF assms(2,3) vp(1)] .
  have kk: "currentStampsPage (snd (renderStamps h popId s)) = k" by (simp add: cs(1))
  have "1 \<le> totalPages (length vp)" by (simp add: totalPages_def)
  then have k0: "0 \<le> k" using assms(4) by (simp add: k_def)
  have sl: "js_slice vp (k * stampsPerPage) (k * stampsPerPage + stampsPerPage) =
      take 3 (drop (3 * nat k) vp)"
    using js_slice_page [OF k0] .
  have grid: "\<forall>g. grid_after g (trace (snd (renderStamps h popId s))) = cs"
    by (simp add: cs(1) grid_after_append grid_after_cards)
  show ?thesis
    using vp(1) sel srt grid cs(2) kk sl by (intro exI [of _ vp] exI [of _ cs]) (simp add: cs(1))
qed

theorem stamps_gallery_witness:
  "visitedPools example_host
     (start\<lparr>visited := \<lparr>own = [''woolwich'' \<mapsto> \<lparr>ent_done = JBool True, ent_date = ''16/12/2025''\<rparr>,
                                   ''balmain'' \<mapsto> \<lparr>ent_done = JBool True, ent_date = ''01/12/2025''\<rparr>],
                            proto = None\<rparr>\<rparr>) = Inr [balmain, woolwich] \<and>
   map card_title (grid_after []
     (trace (snd (renderStamps example_host None
       (start\<lparr>visited := \<lparr>own = [''woolwich'' \<mapsto> \<lparr>ent_done = JBool True, ent_date = ''16/12/2025''\<rparr>,
                                     ''balmain'' \<mapsto> \<lparr>ent_done = JBool True, ent_date = ''01/12/2025''\<rparr>],
                              proto = None\<rparr>\<rparr>))))) =
     [''Dawn Fraser Baths'', ''Woolwich Baths'']"
proof -
  have wf: "well_formed (visited
     (start\<lparr>visited := \<lparr>own = [''woolwich'' \<mapsto> \<lparr>ent_done = JBool True, ent_date = ''16/12/2025''\<rparr>,
                                   ''balmain'' \<mapsto> \<lparr>ent_done = JBool True, ent_date = ''01/12/2025''\<rparr>],
                            proto = None\<rparr>\<rparr>))"
    by (auto simp: well_formed_def date_string_def date_char_def is_digit_def split: if_splits)
  have grid: "passportGrid example_host" by (simp add: example_host_def)
  have page: "0 \<le> currentStampsPage
     (start\<lparr>visited := \<lparr>own = [''woolwich'' \<mapsto> \<lparr>ent_done = JBool True, ent_date = ''16/12/2025''\<rparr>,
                                   ''balmain'' \<mapsto> \<lparr>ent_done = JBool True, ent_date = ''01/12/2025''\<rparr>],
                            proto = None\<rparr>\<rparr>)"
    by (simp add: start_def)
  show ?thesis
    using stamps_gallery [OF grid example_host_collates wf page, of None]
    by (simp add: example_defs)
qed

section \<open>Profile reset\<close>

text \<open>
  Claim C6. A reset whose confirmation is declined changes nothing: the four keys
  (name, visited map, selection, stamps page) stay as they are. A confirmed reset
  removes the four keys, leaves every other key alone, and then reloads the page.
  When a removal raises, the user is alerted and the handler ends without
  reloading (the keys removed before the failing call stay removed).
\<close>

theorem reset_profile:
  "resetBtn_click K throws False b = b \<and>
   ((\<forall>k \<in> set (reset_keys K). \<not> throws k) \<longrightarrow>
      localStorage (resetBtn_click K throws True b) =
        (\<lambda>k. if k \<in> set (reset_keys K) then None else localStorage b k) \<and>
      ui (resetBtn_click K throws True b) = ui b @ map RemoveItem (reset_keys K) @ [Reload]) \<and>
   ((\<exists>k \<in> set (reset_keys K). throws k) \<longrightarrow>
      ui (resetBtn_click K throws True b) =
        ui b @ map RemoveItem (takeWhile (\<lambda>k. \<not> throws k) (reset_keys K)) @
          [Alert ''Could not reset (storage not available).''])"
proof -
  have a: "resetBtn_click K throws False b = b" by (simp add: resetBtn_click_def)
  have r: "removeItems throws (reset_keys K) b =
     (if \<exists>k \<in> set (reset_keys K). throws k then Some StorageError else None,
      b\<lparr>localStorage := (\<lambda>k. if k \<in> set (takeWhile (\<lambda>k. \<not> throws k) (reset_keys K)) then None
                                 else localStorage b k),
         ui := ui b @ map RemoveItem (takeWhile (\<lambda>k. \<not> throws k) (reset_keys K))\<rparr>)"
    by (rule removeItems_result)
  have u: "resetBtn_click K throws True b =
     (case removeItems throws (reset_keys K) b of
          (Some e, b1) \<Rightarrow> b1\<lparr>ui := ui b1 @ [Alert ''Could not reset (storage not available).'']\<rparr>
        | (None, b1) \<Rightarrow> b1\<lparr>ui := ui b1 @ [Reload]\<rparr>)"
    by (simp add: resetBtn_click_def reset_keys_def)
  have b1: "(\<forall>k \<in> set (reset_keys K). \<not> throws k) \<longrightarrow>
      localStorage (resetBtn_click K throws True b) =
        (\<lambda>k. if k \<in> set (reset_keys K) then None else localStorage b k) \<and>
      ui (resetBtn_click K throws True b) = ui b @ map RemoveItem (reset_keys K) @ [Reload]"
  proof
    assume n: "\<forall>k \<in> set (reset_keys K). \<not> throws k"
    then have t: "takeWhile (\<lambda>k. \<not> throws k) (reset_keys K) = reset_keys K"
      by (simp add: takeWhile_eq_all_conv)
    have "\<not> (\<exists>k \<in> set (reset_keys K). throws k)" using n by simp
    then show "localStorage (resetBtn_click K throws True b) =
        (\<lambda>k. if k \<in> set (reset_keys K) then None else localStorage b k) \<and>
      ui (resetBtn_click K throws True b) = ui b @ map RemoveItem (reset_keys K) @ [Reload]"
      unfolding u r t by simp
  qed
  have c: "(\<exists>k \<in> set (reset_keys K). throws k) \<longrightarrow>
      ui (resetBtn_click K throws True b) =
        ui b @ map RemoveItem (takeWhile (\<lambda>k. \<not> throws k) (reset_keys K)) @
          [Alert ''Could not reset (storage not available).'']"
    unfolding u r by simp
  show ?thesis using a b1 c by blast
qed

theorem reset_profile_witness:
  "localStorage (resetBtn_click \<lparr>VISITED = ''v'', SELECTION = ''s'', STAMPS_PAGE = ''p''\<rparr>
      (\<lambda>k. False) True
      \<lparr>localStorage = [''passportOwnerName'' \<mapsto> ''Ada'', ''v'' \<mapsto> ''{}'', ''other'' \<mapsto> ''x''],
       ui = []\<rparr>) ''v'' = None \<and>
   localStorage (resetBtn_click \<lparr>VISITED = ''v'', SELECTION = ''s'', STAMPS_PAGE = ''p''\<rparr>
      (\<lambda>k. False) True
      \<lparr>localStorage = [''passportOwnerName'' \<mapsto> ''Ada'', ''v'' \<mapsto> ''{}'', ''other'' \<mapsto> ''x''],
       ui = []\<rparr>) ''other'' = Some ''x'' \<and>
   ui (resetBtn_click \<lparr>VISITED = ''v'', SELECTION = ''s'', STAMPS_PAGE = ''p''\<rparr>
      (\<lambda>k. False) True
      \<lparr>localStorage = [''passportOwnerName'' \<mapsto> ''Ada'', ''v'' \<mapsto> ''{}'', ''other'' \<mapsto> ''x''],
       ui = []\<rparr>) =
     [RemoveItem ''passportOwnerName'', RemoveItem ''v'', RemoveItem ''s'', RemoveItem ''p'', Reload] \<and>
   ui (resetBtn_click \<lparr>VISITED = ''v'', SELECTION = ''s'', STAMPS_PAGE = ''p''\<rparr>
      (\<lambda>k. True) True
      \<lparr>localStorage = [''passportOwnerName'' \<mapsto> ''Ada'', ''v'' \<mapsto> ''{}'', ''other'' \<mapsto> ''x''],
       ui = []\<rparr>) = [Alert ''Could not reset (storage not available).'']"
  using reset_profile [of "\<lparr>VISITED = ''v'', SELECTION = ''s'', STAMPS_PAGE = ''p''\<rparr>"
      "\<lambda>k. False"
      "\<lparr>localStorage = [''passportOwnerName'' \<mapsto> ''Ada'', ''v'' \<mapsto> ''{}'', ''other'' \<mapsto> ''x''],
        ui = []\<rparr>"]
    reset_profile [of "\<lparr>VISITED = ''v'', SELECTION = ''s'', STAMPS_PAGE = ''p''\<rparr>"
      "\<lambda>k. True"
      "\<lparr>localStorage = [''passportOwnerName'' \<mapsto> ''Ada'', ''v'' \<mapsto> ''{}'', ''other'' \<mapsto> ''x''],
        ui = []\<rparr>"]
  by (auto simp: reset_keys_def)

section \<open>Legacy dates\<close>

text \<open>
  Claim C7. A stored date of the legacy form \<open>YYYY-MM-DD\<close> (four digits, two
  digits, two digits) is displayed as \<open>DD/MM/YYYY\<close>: by \<open>formatDateAU\<close>, by the
  chip of the list view and by the card of the stamps view. The display path does
  not rewrite the stored value: neither render changes the visited object, and
  neither calls \<open>writeVisited\<close>.
\<close>

theorem legacy_date_display:
  assumes "length y = 4" "length m = 2" "length d = 2"
    and "list_all is_digit y" "list_all is_digit m" "list_all is_digit d"
    and "js_index (pools s) (selectedIndex s) = Some p"
    and "get_entry (visited s) (pool_id p) =
           Some \<lparr>ent_done = JBool True, ent_date = y @ ''-'' @ m @ ''-'' @ d\<rparr>"
  shows "formatDateAU (Some (y @ ''-'' @ m @ ''-'' @ d)) = d @ ''/'' @ m @ ''/'' @ y \<and>
         renderList h s =
           (None, updateCount h (emit (PoolListRow
              \<lparr>row_name = pool_name p, row_data_id = pool_id p, row_stamped = True,
               row_chip = Visited (d @ ''/'' @ m @ ''/'' @ y)\<rparr>) (emit PoolListCleared s))) \<and>
         (\<exists>c. stamp_card (visited s) popId p = Inr c \<and> card_date c = d @ ''/'' @ m @ ''/'' @ y) \<and>
         visited (snd (renderList h s)) = visited s \<and>
         visited (snd (renderStamps h popId s)) = visited s \<and>
         filter is_write_visited (trace (snd (renderList h s))) = filter is_write_visited (trace s) \<and>
         filter is_write_visited (trace (snd (renderStamps h popId s))) =
           filter is_write_visited (trace s)"
proof -
  have f: "formatDateAU (Some (y @ ''-'' @ m @ ''-'' @ d)) = d @ ''/'' @ m @ ''/'' @ y"
  proof -
    have "iso_regex_test (y @ ''-'' @ m @ ''-'' @ d)"
      using iso_shape_parts [OF assms(1-6)] by (simp add: iso_regex_test_shape)
    then show ?thesis
      using split_iso [OF assms(4-6)] by (simp add: formatDateAU_def template_nth_def)
  qed
  have dn: "done_test (visited s) (pool_id p) = JBool True"
    using assms(8) by (simp add: done_test_get_entry)
  have r: "renderList h s =
           (None, updateCount h (emit (PoolListRow
              \<lparr>row_name = pool_name p, row_data_id = pool_id p, row_stamped = True,
               row_chip = Visited (d @ ''/'' @ m @ ''/'' @ y)\<rparr>) (emit PoolListCleared s)))"
    using renderList_row [OF assms(7), of h] dn f assms(8) by simp
  have g: "js_get (visited s) (pool_id p) =
      AnEntry \<lparr>ent_done = JBool True, ent_date = y @ ''-'' @ m @ ''-'' @ d\<rparr>"
    using assms(8) by (simp add: get_entry_def split: looked.splits)
  have c: "\<exists>c. stamp_card (visited s) popId p = Inr c \<and> card_date c = d @ ''/'' @ m @ ''/'' @ y"
    using g f by (simp add: stamp_card_def date_prop_def)
  show ?thesis
    using f r c renderList_fields(1) [of h s] renderStamps_fields(1) [of h popId s]
      renderList_no_write [of h s] renderStamps_no_write [of h popId s]
    by blast
qed

theorem legacy_date_display_witness:
  "formatDateAU (Some ''2025-12-16'') = ''16/12/2025'' \<and>
   fst (renderList example_host
     (start\<lparr>visited := \<lparr>own = [''woolwich'' \<mapsto> \<lparr>ent_done = JBool True, ent_date = ''2025-12-16''\<rparr>],
                            proto = None\<rparr>\<rparr>)) = None \<and>
   trace (snd (renderList example_host
     (start\<lparr>visited := \<lparr>own = [''woolwich'' \<mapsto> \<lparr>ent_done = JBool True, ent_date = ''2025-12-16''\<rparr>],
                            proto = None\<rparr>\<rparr>))) =
     [PoolListCleared,
      PoolListRow \<lparr>row_name = ''Woolwich Baths'', row_data_id = ''woolwich'', row_stamped = True,
                   row_chip = Visited ''16/12/2025''\<rparr>,
      CountBadge (spec_countVisited
         \<lparr>own = [''woolwich'' \<mapsto> \<lparr>ent_done = JBool True, ent_date = ''2025-12-16''\<rparr>],
          proto = None\<rparr>) 2] \<and>
   own (visited (snd (renderList example_host
     (start\<lparr>visited := \<lparr>own = [''woolwich'' \<mapsto> \<lparr>ent_done = JBool True, ent_date = ''2025-12-16''\<rparr>],
                            proto = None\<rparr>\<rparr>)))) ''woolwich'' =
     Some \<lparr>ent_done = JBool True, ent_date = ''2025-12-16''\<rparr>"
  using legacy_date_display [of "''2025''" "''12''" "''16''"
      "start\<lparr>visited := \<lparr>own = [''woolwich'' \<mapsto> \<lparr>ent_done = JBool True, ent_date = ''2025-12-16''\<rparr>],
                             proto = None\<rparr>\<rparr>"
      woolwich example_host None]
  by (simp add: is_digit_def start_def js_index_def woolwich_def updateCount_def emit_def
      example_host_def get_entry_def js_get_def)

section \<open>The toggle's frame\<close>

text \<open>
  Claim C8. For every visited object and every pool id, \<open>toggleStamp\<close> of that id
  leaves the entry of every other id as it was: its own property, the entry that
  \<open>visited[other]\<close> yields, and the value of its \<open>done\<close> test.
\<close>

theorem toggle_frame:
  "other \<noteq> poolId \<Longrightarrow>
   own (visited (snd (toggleStamp h today poolId animate s))) other = own (visited s) other \<and>
   get_entry (visited (snd (toggleStamp h today poolId animate s))) other =
     get_entry (visited s) other \<and>
   done_test (visited (snd (toggleStamp h today poolId animate s))) other =
     done_test (visited s) other"
  by (simp add: toggleStamp_visited own_toggled_other get_entry_toggled_other done_test_get_entry)

theorem toggle_frame_witness:
  "''balmain'' \<noteq> ''woolwich'' \<and>
   own (visited (snd (toggleStamp example_host ''16/12/2025'' ''woolwich'' True
      (start\<lparr>visited := \<lparr>own = [''balmain'' \<mapsto> \<lparr>ent_done = JBool True, ent_date = ''01/12/2025''\<rparr>],
                             proto = None\<rparr>\<rparr>)))) ''balmain'' =
     Some \<lparr>ent_done = JBool True, ent_date = ''01/12/2025''\<rparr>"
  using toggle_frame [of "''balmain''" "''woolwich''" example_host "''16/12/2025''" True
      "start\<lparr>visited := \<lparr>own = [''balmain'' \<mapsto> \<lparr>ent_done = JBool True, ent_date = ''01/12/2025''\<rparr>],
                             proto = None\<rparr>\<rparr>"]
  by simp

section \<open>What the readers of the visited object test\<close>




section \<open>Dates that pass through\<close>

text \<open>
  Claim C10. \<open>formatDateAU\<close> returns the empty string for an absent and for an
  empty argument, and returns every other string unchanged unless it has exactly the
  shape of four digits, a hyphen, two digits, a hyphen and two digits.
\<close>

theorem formatDateAU_passthrough:
  "formatDateAU None = [] \<and> formatDateAU (Some []) = [] \<and>
   (s \<noteq> [] \<and> \<not> iso_shape s \<longrightarrow> formatDateAU (Some s) = s)"
  by (simp add: formatDateAU_def iso_regex_test_shape)

theorem formatDateAU_passthrough_witness:
  "''16/12/2025'' \<noteq> [] \<and> \<not> iso_shape ''16/12/2025'' \<and>
   formatDateAU (Some ''16/12/2025'') = ''16/12/2025'' \<and>
   ''2025-12-16 '' \<noteq> [] \<and> \<not> iso_shape ''2025-12-16 '' \<and>
   formatDateAU (Some ''2025-12-16 '') = ''2025-12-16 ''"
  using formatDateAU_passthrough [of "''16/12/2025''"] formatDateAU_passthrough [of "''2025-12-16 ''"]
  by (simp add: iso_shape_def is_digit_def)

end
